theory Spec2Isabelle
  imports
    Main
    "HOL-Library.Word"
    "HOL-Library.Sublist"
    "HOL-Library.Multiset"
    "HOL-Library.Product_Lexorder"
begin

section \<open>The block inserter menu (editor/components/inserter/menu.js)\<close>

text \<open>
  The development embeds the logic of the inserter menu: the exported function
  \<open>searchBlocks\<close> and the methods of the class \<open>InserterMenu\<close> that select, sort and
  group block types. The component instance (\<open>this\<close>) is a record of its props and its
  state; the registries of \<open>@wordpress/blocks\<close> (\<open>getBlockTypes()\<close>, \<open>getCategories()\<close>)
  are a record passed to every method that reads them, and the built-in
  \<open>String.prototype.toLowerCase\<close> is a parameter of every function that calls it.
\<close>

subsection \<open>Strings\<close>

text \<open>
  A JavaScript string is a sequence of 16-bit code units. The strings that the menu
  lower-cases, trims or searches (titles, keywords, the search text) are lists of code
  units. The strings that it only compares with one another or passes on (names,
  categories, slugs, tab names, icons, identifiers) are of type \<open>string\<close>.
\<close>

type_synonym codeUnit = "16 word"

type_synonym jsString = "codeUnit list"

text \<open>
  \<open>String.prototype.trim\<close> removes the white space and the line terminators at both
  ends of a string. These are TAB, LF, VT, FF, CR, SPACE, NO-BREAK SPACE, the other space
  separators of Unicode (U+1680, U+2000 to U+200A, U+202F, U+205F, U+3000), the line and
  paragraph separators U+2028 and U+2029, and U+FEFF; each of them is one code unit.
\<close>

definition isWhiteSpace :: "codeUnit \<Rightarrow> bool" where
  "isWhiteSpace c \<longleftrightarrow>
     c \<in> set [0x0009, 0x000A, 0x000B, 0x000C, 0x000D, 0x0020, 0x00A0, 0x1680,
               0x2000, 0x2001, 0x2002, 0x2003, 0x2004, 0x2005, 0x2006, 0x2007,
               0x2008, 0x2009, 0x200A, 0x2028, 0x2029, 0x202F, 0x205F, 0x3000, 0xFEFF]"

definition trim :: "jsString \<Rightarrow> jsString" where
  "trim s = rev (dropWhile isWhiteSpace (rev (dropWhile isWhiteSpace s)))"

text \<open>
  \<open>String.prototype.toLowerCase\<close> applies the case mappings of Unicode, a table that is
  not part of the repository and whose mappings depend on the neighbouring characters.
  The function is therefore not defined here: \<open>searchBlocks\<close> and its callers take it as
  their first argument, named \<open>toLowerCase\<close>, and the theorems hold for every function in
  its place.
\<close>

text \<open>
  \<open>String.prototype.indexOf\<close>: the least position at which the code units of the
  search string start, or \<open>-1\<close>. The empty search string is found at position 0 of every string.
\<close>

fun indexOfFrom :: "jsString \<Rightarrow> jsString \<Rightarrow> nat \<Rightarrow> int" where
  "indexOfFrom [] searchString k = (if searchString = [] then int k else - 1)"
| "indexOfFrom (c # cs) searchString k =
     (if prefix searchString (c # cs) then int k else indexOfFrom cs searchString (Suc k))"

definition indexOf :: "jsString \<Rightarrow> jsString \<Rightarrow> int" where
  "indexOf s searchString = indexOfFrom s searchString 0"

subsection \<open>The lodash functions the menu calls\<close>

text \<open>
  \<open>some(collection, predicate)\<close>: a collection that is \<open>undefined\<close> (here \<open>None\<close>) has
  no element, so the answer is \<open>false\<close>.
\<close>

fun some_lodash :: "'a list option \<Rightarrow> ('a \<Rightarrow> bool) \<Rightarrow> bool" where
  "some_lodash None predicate = False"
| "some_lodash (Some xs) predicate = list_ex predicate xs"

text \<open>\<open>find\<close>: the first element that satisfies the predicate, or \<open>undefined\<close>.\<close>

fun find_lodash :: "'a list \<Rightarrow> ('a \<Rightarrow> bool) \<Rightarrow> 'a option" where
  "find_lodash [] predicate = None"
| "find_lodash (x # xs) predicate = (if predicate x then Some x else find_lodash xs predicate)"

text \<open>\<open>findIndex\<close>: the index of the first element that satisfies the predicate, or \<open>-1\<close>.\<close>

fun findIndexFrom :: "'a list \<Rightarrow> ('a \<Rightarrow> bool) \<Rightarrow> nat \<Rightarrow> int" where
  "findIndexFrom [] predicate k = - 1"
| "findIndexFrom (x # xs) predicate k =
     (if predicate x then int k else findIndexFrom xs predicate (Suc k))"

definition findIndex :: "'a list \<Rightarrow> ('a \<Rightarrow> bool) \<Rightarrow> int" where
  "findIndex array predicate = findIndexFrom array predicate 0"

text \<open>\<open>includes\<close>: membership in an array.\<close>

definition includes_lodash :: "'a list \<Rightarrow> 'a \<Rightarrow> bool" where
  "includes_lodash collection v = list_ex (\<lambda>x. x = v) collection"

text \<open>
  \<open>filter(collection, predicate)\<close>: when the predicate is \<open>undefined\<close> (here \<open>None\<close>)
  lodash uses the identity function, and an element is kept when it is truthy. The
  collections filtered here hold objects, and every object is truthy.
\<close>

definition truthyObject :: "'a \<Rightarrow> bool" where
  "truthyObject x = True"

definition filter_lodash :: "'a list \<Rightarrow> ('a \<Rightarrow> bool) option \<Rightarrow> 'a list" where
  "filter_lodash collection predicate =
     filter (case predicate of None \<Rightarrow> truthyObject | Some p \<Rightarrow> p) collection"

text \<open>
  \<open>sortBy(collection, iteratee)\<close>: lodash pairs every element with its criterion and
  its index in the collection, sorts the entries by criterion and, where the criteria are
  equal, by index, and returns the elements of the sorted entries. The order on the entries
  is total and no two entries are equal in it, so the sorted list does not depend on the
  sorting algorithm.
\<close>

definition sortBy_entries :: "'a list \<Rightarrow> ('a \<Rightarrow> int) \<Rightarrow> (int \<times> nat \<times> 'a) list" where
  "sortBy_entries collection iteratee =
     map (\<lambda>(index, v). (iteratee v, index, v)) (enumerate 0 collection)"

definition sortBy :: "'a list \<Rightarrow> ('a \<Rightarrow> int) \<Rightarrow> 'a list" where
  "sortBy collection iteratee =
     map (\<lambda>(criteria, index, v). v)
       (sort_key (\<lambda>(criteria, index, v). (criteria, index))
          (sortBy_entries collection iteratee))"

text \<open>
  \<open>groupBy(collection, iteratee)\<close>: the result object is an association list from key
  to group. An element is pushed to the group of its key when the object has that key,
  and starts a new group otherwise.
\<close>

fun groupBy_assign :: "('k \<times> 'a list) list \<Rightarrow> 'k \<Rightarrow> 'a \<Rightarrow> ('k \<times> 'a list) list" where
  "groupBy_assign [] key v = [(key, [v])]"
| "groupBy_assign ((key', g) # result) key v =
     (if key' = key then (key', g @ [v]) # result
      else (key', g) # groupBy_assign result key v)"

definition groupBy :: "'a list \<Rightarrow> ('a \<Rightarrow> 'k) \<Rightarrow> ('k \<times> 'a list) list" where
  "groupBy collection iteratee =
     foldl (\<lambda>result v. groupBy_assign result (iteratee v) v) [] collection"

subsection \<open>Data\<close>

text \<open>
  A block type, as registered or as built by \<open>getReusableBlockTypes\<close>. The keywords
  are optional: the block types built for reusable blocks have none. A missing
  \<open>isPrivate\<close> or \<open>useOnce\<close> is read as \<open>false\<close>.
\<close>

record blockType =
  name :: string
  title :: jsString
  icon :: string
  category :: string
  keywords_blockType :: "jsString list option"
  isPrivate :: bool
  useOnce :: bool
  initialAttributes :: "(string \<times> string) list"

text \<open>A category of the registry, a block placed in the document, a saved reusable block.\<close>

record categoryType =
  slug :: string
  title_category :: string

record block =
  uid :: string
  name_block :: string

record reusableBlock =
  id_reusable :: string
  title_reusable :: jsString

text \<open>
  The editor setting \<open>blockTypes\<close>: a falsy value disables every block type, an array
  is a whitelist of names, any other value allows all.
\<close>

datatype blockTypesSetting = Falsy | AllowAll | Whitelist "string list"

record props =
  blockTypes :: blockTypesSetting
  recentlyUsedBlocks :: "blockType list"
  blocks :: "block list"
  reusableBlocks :: "reusableBlock list"

record state =
  filterValue :: jsString
  tab :: string
  selectedBlock :: "blockType option"

record inserterMenu =
  props :: props
  state :: state

text \<open>The registries of \<open>@wordpress/blocks\<close>, read through the two functions it exports.\<close>

record registry =
  getBlockTypes_registry :: "blockType list"
  getCategories :: "categoryType list"

subsection \<open>searchBlocks\<close>

definition matchSearch :: "(jsString \<Rightarrow> jsString) \<Rightarrow> jsString \<Rightarrow> jsString \<Rightarrow> bool" where
  "matchSearch toLowerCase normalizedSearchTerm s =
     (indexOf (toLowerCase s) normalizedSearchTerm \<noteq> - 1)"

definition searchBlocks ::
  "(jsString \<Rightarrow> jsString) \<Rightarrow> blockType list \<Rightarrow> jsString \<Rightarrow> blockType list" where
  "searchBlocks toLowerCase blks searchTerm =
     (let normalizedSearchTerm = trim (toLowerCase searchTerm)
      in filter (\<lambda>b. matchSearch toLowerCase normalizedSearchTerm (title b)
                     \<or> some_lodash (keywords_blockType b)
                          (matchSearch toLowerCase normalizedSearchTerm)) blks)"

subsection \<open>The methods of InserterMenu\<close>

text \<open>
  The value of \<open>blockType.useOnce && find(...)\<close>: \<open>false\<close> when the block type is not
  use-once, else what \<open>find\<close> returns, the block found or \<open>undefined\<close>.
\<close>

datatype disabledValue = DFalse | DUndefined | DBlock block

fun truthy :: "disabledValue \<Rightarrow> bool" where
  "truthy DFalse = False"
| "truthy DUndefined = False"
| "truthy (DBlock b) = True"

definition isDisabledBlock :: "inserterMenu \<Rightarrow> blockType \<Rightarrow> disabledValue" where
  "isDisabledBlock this bt =
     (if useOnce bt
      then (case find_lodash (blocks (props this)) (\<lambda>b. name bt = name_block b) of
              None \<Rightarrow> DUndefined | Some b \<Rightarrow> DBlock b)
      else DFalse)"

definition getStaticBlockTypes :: "registry \<Rightarrow> inserterMenu \<Rightarrow> blockType list" where
  "getStaticBlockTypes reg this =
     (case blockTypes (props this) of
        Falsy \<Rightarrow> []
      | AllowAll \<Rightarrow> filter (\<lambda>b. \<not> isPrivate b) (getBlockTypes_registry reg)
      | Whitelist names \<Rightarrow>
          filter (\<lambda>b. \<not> isPrivate b \<and> includes_lodash names (name b)) (getBlockTypes_registry reg))"

definition getReusableBlockTypes :: "inserterMenu \<Rightarrow> blockType list" where
  "getReusableBlockTypes this =
     map (\<lambda>r. \<lparr> name = ''core/block'',
                title = title_reusable r,
                icon = ''layout'',
                category = ''reusable-blocks'',
                keywords_blockType = None,
                isPrivate = False,
                useOnce = False,
                initialAttributes = [(''ref'', id_reusable r)] \<rparr>)
       (reusableBlocks (props this))"

definition getBlockTypes :: "registry \<Rightarrow> inserterMenu \<Rightarrow> blockType list" where
  "getBlockTypes reg this = getStaticBlockTypes reg this @ getReusableBlockTypes this"

definition searchBlocks_method ::
  "(jsString \<Rightarrow> jsString) \<Rightarrow> inserterMenu \<Rightarrow> blockType list \<Rightarrow> blockType list" where
  "searchBlocks_method toLowerCase this bts =
     searchBlocks toLowerCase bts (filterValue (state this))"

text \<open>
  The \<open>switch\<close> of \<open>getBlocksForTab\<close> assigns the predicate in three of its cases and
  returns in the case \<open>'recent'\<close>; for any other tab the predicate stays \<open>undefined\<close>.
\<close>

definition tabPredicate :: "string \<Rightarrow> (blockType \<Rightarrow> bool) option" where
  "tabPredicate t =
     (if t = ''blocks''
        then Some (\<lambda>b. category b \<noteq> ''embed'' \<and> category b \<noteq> ''reusable-blocks'')
      else if t = ''embeds'' then Some (\<lambda>b. category b = ''embed'')
      else if t = ''saved'' then Some (\<lambda>b. category b = ''reusable-blocks'')
      else None)"

definition getBlocksForTab :: "registry \<Rightarrow> inserterMenu \<Rightarrow> string \<Rightarrow> blockType list" where
  "getBlocksForTab reg this t =
     (let bts = getBlockTypes reg this
      in if filterValue (state this) \<noteq> [] then bts
         else if t = ''recent''
           then filter_lodash (recentlyUsedBlocks (props this))
                  (Some (\<lambda>r. find_lodash bts (\<lambda>b. name b = name r) \<noteq> None))
         else filter_lodash bts (tabPredicate t))"

definition getCategoryIndex :: "registry \<Rightarrow> blockType \<Rightarrow> int" where
  "getCategoryIndex reg item =
     findIndex (getCategories reg) (\<lambda>c. slug c = category item)"

definition sortBlocks :: "registry \<Rightarrow> inserterMenu \<Rightarrow> blockType list \<Rightarrow> blockType list" where
  "sortBlocks reg this bts =
     (if tab (state this) = ''recent'' \<and> filterValue (state this) = [] then bts
      else sortBy bts (getCategoryIndex reg))"

definition groupByCategory :: "blockType list \<Rightarrow> (string \<times> blockType list) list" where
  "groupByCategory bts = groupBy bts category"

definition getVisibleBlocksByCategory ::
  "(jsString \<Rightarrow> jsString) \<Rightarrow> registry \<Rightarrow> inserterMenu \<Rightarrow> blockType list
     \<Rightarrow> (string \<times> blockType list) list" where
  "getVisibleBlocksByCategory toLowerCase reg this bts =
     groupByCategory (sortBlocks reg this (searchBlocks_method toLowerCase this bts))"

subsection \<open>The invariant of the groupBy loop\<close>

text \<open>
  After the elements \<open>ps\<close> have been processed, the result holds one entry for every key
  that occurs among them, no key twice, and the group of a key is the list of the processed
  elements with that key, in their order.
\<close>

definition grouped :: "('a \<Rightarrow> 'k) \<Rightarrow> ('k \<times> 'a list) list \<Rightarrow> 'a list \<Rightarrow> bool" where
  "grouped f acc ps \<longleftrightarrow>
     (\<forall>(k, g)\<in>set acc. g = filter (\<lambda>x. f x = k) ps)
     \<and> fst ` set acc = f ` set ps \<and> distinct (map fst acc)"

subsection \<open>Example data\<close>

text \<open>
  The code units of a text written in ASCII, and a function that agrees with
  \<open>String.prototype.toLowerCase\<close> on the strings whose code units are all below 0x100
  (ASCII and Latin-1): it maps A to Z, and the capital letters U+00C0 to U+00DE except the
  multiplication sign U+00D7, to the letter 0x20 above. It stands for \<open>toLowerCase\<close>
  when the definitions are run on the examples below, which hold such strings only.
\<close>

definition codeUnits :: "string \<Rightarrow> jsString" where
  "codeUnits s = map of_char s"

definition latin1ToLowerCase :: "jsString \<Rightarrow> jsString" where
  "latin1ToLowerCase s =
     map (\<lambda>c. if (0x41 \<le> c \<and> c \<le> 0x5A) \<or> (0xC0 \<le> c \<and> c \<le> 0xDE \<and> c \<noteq> 0xD7)
               then c + 0x20 else c) s"

text \<open>
  Six block types, a registry and a menu instance. The category of \<open>calendarType\<close> is not
  a category of the registry, and \<open>calendarType\<close> itself is not a registered block type.
  The title of \<open>eclairType\<close> starts with U+00C9, the capital E with acute accent.
\<close>

definition paragraphType :: blockType where
  "paragraphType = \<lparr> name = ''core/paragraph'', title = codeUnits ''Paragraph'',
       icon = ''editor-paragraph'', category = ''common'',
       keywords_blockType = Some [codeUnits ''text''], isPrivate = False,
       useOnce = False, initialAttributes = [] \<rparr>"

definition imageType :: blockType where
  "imageType = \<lparr> name = ''core/image'', title = codeUnits ''Image'',
       icon = ''format-image'', category = ''common'',
       keywords_blockType = Some [codeUnits ''photo''], isPrivate = False,
       useOnce = False, initialAttributes = [] \<rparr>"

definition youtubeType :: blockType where
  "youtubeType = \<lparr> name = ''core-embed/youtube'', title = codeUnits ''YouTube'',
       icon = ''embed-video'', category = ''embed'',
       keywords_blockType = Some [codeUnits ''video''], isPrivate = False,
       useOnce = False, initialAttributes = [] \<rparr>"

definition moreType :: blockType where
  "moreType = \<lparr> name = ''core/more'', title = codeUnits ''More'',
       icon = ''editor-insertmore'', category = ''layout'',
       keywords_blockType = None, isPrivate = False,
       useOnce = True, initialAttributes = [] \<rparr>"

definition calendarType :: blockType where
  "calendarType = \<lparr> name = ''acme/calendar'', title = codeUnits ''Calendar'',
       icon = ''calendar'', category = ''acme'',
       keywords_blockType = None, isPrivate = False,
       useOnce = False, initialAttributes = [] \<rparr>"

definition eclairType :: blockType where
  "eclairType = \<lparr> name = ''acme/eclair'', title = 0xC9 # codeUnits ''clair'',
       icon = ''carrot'', category = ''common'',
       keywords_blockType = None, isPrivate = False,
       useOnce = False, initialAttributes = [] \<rparr>"

definition exampleRegistry :: registry where
  "exampleRegistry = \<lparr> getBlockTypes_registry = [paragraphType, imageType, youtubeType, moreType],
       getCategories = [\<lparr> slug = ''common'', title_category = ''Common Blocks'' \<rparr>,
                        \<lparr> slug = ''layout'', title_category = ''Layout Blocks'' \<rparr>,
                        \<lparr> slug = ''embed'', title_category = ''Embed'' \<rparr>,
                        \<lparr> slug = ''reusable-blocks'', title_category = ''Saved Blocks'' \<rparr>] \<rparr>"

text \<open>The menu with the given active tab and the given search text, written in ASCII.\<close>

definition exampleMenu :: "string \<Rightarrow> string \<Rightarrow> inserterMenu" where
  "exampleMenu t v =
     \<lparr> props = \<lparr> blockTypes = AllowAll,
                  recentlyUsedBlocks = [imageType, calendarType, paragraphType],
                  blocks = [\<lparr> uid = ''b1'', name_block = ''core/more'' \<rparr>],
                  reusableBlocks = [\<lparr> id_reusable = ''r1'',
                                      title_reusable = codeUnits ''Footer'' \<rparr>] \<rparr>,
       state = \<lparr> filterValue = codeUnits v, tab = t, selectedBlock = None \<rparr> \<rparr>"

section \<open>Properties\<close>

subsection \<open>Strings and searching\<close>

lemma indexOfFrom_sublist: "indexOfFrom h n k \<noteq> - 1 \<longleftrightarrow> sublist n h"
  by (induction h arbitrary: k) (auto simp: sublist_Cons_right)

lemma indexOf_sublist: "indexOf h n \<noteq> - 1 \<longleftrightarrow> sublist n h"
  by (simp add: indexOf_def indexOfFrom_sublist)

lemma matchSearch_sublist:
  "matchSearch toLowerCase n s \<longleftrightarrow> sublist n (toLowerCase s)"
  by (simp add: matchSearch_def indexOf_sublist)

lemma some_lodash_iff:
  "some_lodash ko p \<longleftrightarrow> (\<exists>ks. ko = Some ks \<and> (\<exists>k\<in>set ks. p k))"
  by (cases ko) (auto simp: list_ex_iff)

lemma trim_whitespace:
  assumes "\<forall>c\<in>set s. isWhiteSpace c"
  shows "trim s = []"
proof -
  from assms have "dropWhile isWhiteSpace s = []" by simp
  then show ?thesis unfolding trim_def by (simp del: dropWhile_eq_Nil_conv)
qed

lemma searchBlocks_Nil_term:
  "trim (toLowerCase s) = [] \<Longrightarrow> searchBlocks toLowerCase C s = C"
  by (simp add: searchBlocks_def matchSearch_sublist)

text \<open>
  Claim C1. For every list of block types \<open>C\<close> and every search string \<open>s\<close>, the
  result of \<open>searchBlocks\<close> is a sublist of \<open>C\<close> (its elements are elements of \<open>C\<close>, in
  the order of \<open>C\<close>), and a block type of \<open>C\<close> is in the result exactly when the
  normalized search term, \<open>s\<close> lower-cased and then trimmed as the code does it, is a
  substring of its lower-cased title or of one of its lower-cased keywords. This holds
  whatever function \<open>toLowerCase\<close> is.
\<close>

theorem searchBlocks_spec:
  "set (searchBlocks toLowerCase C s) \<subseteq> set C
   \<and> subseq (searchBlocks toLowerCase C s) C
   \<and> (\<forall>b\<in>set C. b \<in> set (searchBlocks toLowerCase C s) \<longleftrightarrow>
        sublist (trim (toLowerCase s)) (toLowerCase (title b))
        \<or> (\<exists>ks. keywords_blockType b = Some ks
              \<and> (\<exists>k\<in>set ks. sublist (trim (toLowerCase s)) (toLowerCase k))))"
proof -
  have "subseq (searchBlocks toLowerCase C s) C"
    by (simp add: searchBlocks_def Let_def)
  then show ?thesis
    by (auto simp: searchBlocks_def Let_def matchSearch_sublist some_lodash_iff)
qed

text \<open>
  The search for \<open>" Photo "\<close> among the paragraph and the image block type keeps the
  image, whose keyword is \<open>photo\<close>; the search for the three code units U+00E9, c, l
  keeps the block type whose title starts with U+00C9, c, l.
\<close>

theorem searchBlocks_spec_witness:
  "imageType \<in> set [paragraphType, imageType]
   \<and> imageType \<in> set (searchBlocks latin1ToLowerCase [paragraphType, imageType]
                          (codeUnits '' Photo ''))
   \<and> (sublist (trim (latin1ToLowerCase (codeUnits '' Photo '')))
          (latin1ToLowerCase (title imageType))
      \<or> (\<exists>ks. keywords_blockType imageType = Some ks
            \<and> (\<exists>k\<in>set ks. sublist (trim (latin1ToLowerCase (codeUnits '' Photo '')))
                             (latin1ToLowerCase k))))
   \<and> paragraphType \<notin> set (searchBlocks latin1ToLowerCase [paragraphType, imageType]
                              (codeUnits '' Photo ''))
   \<and> searchBlocks latin1ToLowerCase [paragraphType, eclairType] (0xE9 # codeUnits ''cl'')
       = [eclairType]"
proof -
  have ev: "searchBlocks latin1ToLowerCase [paragraphType, imageType] (codeUnits '' Photo '')
      = [imageType]"
    by code_simp
  have ev': "searchBlocks latin1ToLowerCase [paragraphType, eclairType] (0xE9 # codeUnits ''cl'')
      = [eclairType]"
    by code_simp
  have ne: "paragraphType \<noteq> imageType"
    by (simp add: paragraphType_def imageType_def)
  have mem: "imageType \<in> set [paragraphType, imageType]" by simp
  from searchBlocks_spec [of latin1ToLowerCase "[paragraphType, imageType]"
      "codeUnits '' Photo ''"] mem
  have "imageType \<in> set (searchBlocks latin1ToLowerCase [paragraphType, imageType]
                          (codeUnits '' Photo '')) \<longleftrightarrow>
          sublist (trim (latin1ToLowerCase (codeUnits '' Photo '')))
            (latin1ToLowerCase (title imageType))
          \<or> (\<exists>ks. keywords_blockType imageType = Some ks
                \<and> (\<exists>k\<in>set ks. sublist (trim (latin1ToLowerCase (codeUnits '' Photo '')))
                                 (latin1ToLowerCase k)))"
    by blast
  with ev ev' ne mem show ?thesis by simp
qed

text \<open>
  Claim C6. For every list of block types \<open>C\<close>, searching for the empty string returns
  \<open>C\<close> unchanged, and so does searching for a string of white space only, which trims to
  the empty string. Of \<open>toLowerCase\<close> this uses that it returns the empty string for the
  empty string, and a string of white space unchanged: white space has no case mapping.
\<close>

theorem searchBlocks_empty:
  "(toLowerCase [] = [] \<longrightarrow> searchBlocks toLowerCase C [] = C)
   \<and> ((\<forall>c\<in>set s. isWhiteSpace c) \<and> toLowerCase s = s \<longrightarrow>
        trim (toLowerCase s) = [] \<and> searchBlocks toLowerCase C s = C)"
proof -
  have "searchBlocks toLowerCase C [] = C" if "toLowerCase [] = []"
  proof -
    from that have "trim (toLowerCase []) = []" by (simp add: trim_def)
    then show ?thesis by (rule searchBlocks_Nil_term)
  qed
  moreover have "trim (toLowerCase s) = [] \<and> searchBlocks toLowerCase C s = C"
    if "\<forall>c\<in>set s. isWhiteSpace c" and "toLowerCase s = s"
  proof -
    from that have "trim (toLowerCase s) = []" by (simp only: trim_whitespace)
    then show ?thesis by (simp add: searchBlocks_Nil_term)
  qed
  ultimately show ?thesis by blast
qed

text \<open>
  The string of SPACE, TAB, LF, NO-BREAK SPACE, U+2028, U+3000 and U+FEFF is white space
  only; searching for it, or for the empty string, returns both block types.
\<close>

theorem searchBlocks_empty_witness:
  "isWhiteSpace 0x20 \<and> isWhiteSpace 0x09 \<and> isWhiteSpace 0x0A \<and> isWhiteSpace 0xA0
   \<and> isWhiteSpace 0x2028 \<and> isWhiteSpace 0x3000 \<and> isWhiteSpace 0xFEFF
   \<and> latin1ToLowerCase [0x20, 0x09, 0x0A, 0xA0, 0x2028, 0x3000, 0xFEFF]
       = [0x20, 0x09, 0x0A, 0xA0, 0x2028, 0x3000, 0xFEFF]
   \<and> latin1ToLowerCase [] = []
   \<and> searchBlocks latin1ToLowerCase [paragraphType, imageType]
         [0x20, 0x09, 0x0A, 0xA0, 0x2028, 0x3000, 0xFEFF] = [paragraphType, imageType]
   \<and> searchBlocks latin1ToLowerCase [paragraphType, imageType] [] = [paragraphType, imageType]"
proof -
  have ws: "isWhiteSpace 0x20 \<and> isWhiteSpace 0x09 \<and> isWhiteSpace 0x0A \<and> isWhiteSpace 0xA0
      \<and> isWhiteSpace 0x2028 \<and> isWhiteSpace 0x3000 \<and> isWhiteSpace 0xFEFF"
    by (simp add: isWhiteSpace_def)
  then have all: "\<forall>c\<in>set [0x20, 0x09, 0x0A, 0xA0, 0x2028, 0x3000, 0xFEFF]. isWhiteSpace c"
    by simp
  have lc: "latin1ToLowerCase [0x20, 0x09, 0x0A, 0xA0, 0x2028, 0x3000, 0xFEFF]
       = [0x20, 0x09, 0x0A, 0xA0, 0x2028, 0x3000, 0xFEFF]"
    by (simp add: latin1ToLowerCase_def)
  have e: "latin1ToLowerCase [] = []"
    by (simp add: latin1ToLowerCase_def)
  from searchBlocks_empty [of latin1ToLowerCase "[paragraphType, imageType]"
      "[0x20, 0x09, 0x0A, 0xA0, 0x2028, 0x3000, 0xFEFF]"] all lc e
  have "searchBlocks latin1ToLowerCase [paragraphType, imageType]
         [0x20, 0x09, 0x0A, 0xA0, 0x2028, 0x3000, 0xFEFF] = [paragraphType, imageType]
     \<and> searchBlocks latin1ToLowerCase [paragraphType, imageType] [] = [paragraphType, imageType]"
    by blast
  with ws lc e show ?thesis by blast
qed

subsection \<open>Disabled block types\<close>

lemma find_lodash_None: "find_lodash xs p = None \<longleftrightarrow> (\<forall>x\<in>set xs. \<not> p x)"
  by (induction xs) auto

text \<open>
  Claim C7. For every block type \<open>bt\<close> and every list of placed blocks (the prop
  \<open>blocks\<close>), the value of \<open>isDisabledBlock\<close> is truthy exactly when \<open>bt\<close> is use-once and
  some placed block has the name of \<open>bt\<close>. The value does not depend on the state of the
  menu, so neither on the active tab nor on the search text.
\<close>

theorem isDisabledBlock_spec:
  "(truthy (isDisabledBlock this bt) \<longleftrightarrow>
      useOnce bt \<and> (\<exists>p\<in>set (blocks (props this)). name_block p = name bt))
   \<and> isDisabledBlock (this\<lparr>state := st\<rparr>) bt = isDisabledBlock this bt"
proof -
  have "truthy (isDisabledBlock this bt) \<longleftrightarrow>
          useOnce bt \<and> find_lodash (blocks (props this)) (\<lambda>b. name bt = name_block b) \<noteq> None"
    by (simp add: isDisabledBlock_def split: option.splits)
  moreover have "find_lodash (blocks (props this)) (\<lambda>b. name bt = name_block b) \<noteq> None
          \<longleftrightarrow> (\<exists>p\<in>set (blocks (props this)). name_block p = name bt)"
    unfolding find_lodash_None by metis
  ultimately show ?thesis by (simp add: isDisabledBlock_def)
qed

theorem isDisabledBlock_spec_witness:
  "useOnce moreType
   \<and> (\<exists>p\<in>set (blocks (props (exampleMenu ''blocks'' ''photo''))). name_block p = name moreType)
   \<and> truthy (isDisabledBlock (exampleMenu ''blocks'' ''photo'') moreType)
   \<and> \<not> truthy (isDisabledBlock (exampleMenu ''blocks'' ''photo'') paragraphType)"
proof -
  have u: "useOnce moreType" "\<not> useOnce paragraphType"
    by (simp_all add: moreType_def paragraphType_def)
  have p: "\<exists>p\<in>set (blocks (props (exampleMenu ''blocks'' ''photo''))). name_block p = name moreType"
    by (simp add: exampleMenu_def moreType_def)
  from isDisabledBlock_spec [of "exampleMenu ''blocks'' ''photo''" moreType]
    isDisabledBlock_spec [of "exampleMenu ''blocks'' ''photo''" paragraphType] u p
  show ?thesis by blast
qed

subsection \<open>Selecting the block types of a tab\<close>

text \<open>
  Claim C2. With an empty search text, the tab \<open>blocks\<close> returns exactly the block
  types of the catalog (\<open>getBlockTypes\<close>) whose category is neither \<open>embed\<close> nor
  \<open>reusable-blocks\<close>, the tab \<open>embeds\<close> those whose category is \<open>embed\<close>, and the tab
  \<open>saved\<close> those whose category is \<open>reusable-blocks\<close>, each in the order of the catalog.
  The three results partition the catalog.
\<close>

theorem getBlocksForTab_partition:
  assumes "filterValue (state this) = []"
  shows "getBlocksForTab reg this ''blocks'' =
           filter (\<lambda>b. category b \<noteq> ''embed'' \<and> category b \<noteq> ''reusable-blocks'')
             (getBlockTypes reg this)
         \<and> getBlocksForTab reg this ''embeds'' =
             filter (\<lambda>b. category b = ''embed'') (getBlockTypes reg this)
         \<and> getBlocksForTab reg this ''saved'' =
             filter (\<lambda>b. category b = ''reusable-blocks'') (getBlockTypes reg this)
         \<and> mset (getBlocksForTab reg this ''blocks'') + mset (getBlocksForTab reg this ''embeds'')
             + mset (getBlocksForTab reg this ''saved'') = mset (getBlockTypes reg this)"
proof -
  have b: "getBlocksForTab reg this ''blocks'' =
           filter (\<lambda>b. category b \<noteq> ''embed'' \<and> category b \<noteq> ''reusable-blocks'')
             (getBlockTypes reg this)"
    using assms by (simp add: getBlocksForTab_def filter_lodash_def tabPredicate_def)
  have e: "getBlocksForTab reg this ''embeds'' =
             filter (\<lambda>b. category b = ''embed'') (getBlockTypes reg this)"
    using assms by (simp add: getBlocksForTab_def filter_lodash_def tabPredicate_def)
  have s: "getBlocksForTab reg this ''saved'' =
             filter (\<lambda>b. category b = ''reusable-blocks'') (getBlockTypes reg this)"
    using assms by (simp add: getBlocksForTab_def filter_lodash_def tabPredicate_def)
  have "mset (filter (\<lambda>b. category b \<noteq> ''embed'' \<and> category b \<noteq> ''reusable-blocks'') xs)
          + mset (filter (\<lambda>b. category b = ''embed'') xs)
          + mset (filter (\<lambda>b. category b = ''reusable-blocks'') xs) = mset xs"
    for xs :: "blockType list"
    by (induction xs) auto
  with b e s show ?thesis by simp
qed

theorem getBlocksForTab_partition_witness:
  "filterValue (state (exampleMenu ''recent'' [])) = []
   \<and> getBlocksForTab exampleRegistry (exampleMenu ''recent'' []) ''embeds'' = [youtubeType]
   \<and> getBlocksForTab exampleRegistry (exampleMenu ''recent'' []) ''blocks''
       = [paragraphType, imageType, moreType]
   \<and> map title (getBlocksForTab exampleRegistry (exampleMenu ''recent'' []) ''saved'')
       = [codeUnits ''Footer'']"
proof -
  have h: "filterValue (state (exampleMenu ''recent'' [])) = []"
    by (simp add: exampleMenu_def codeUnits_def)
  have cat: "getBlockTypes exampleRegistry (exampleMenu ''recent'' [])
       = [paragraphType, imageType, youtubeType, moreType] @
         getReusableBlockTypes (exampleMenu ''recent'' [])"
    by (simp add: getBlockTypes_def getStaticBlockTypes_def exampleMenu_def exampleRegistry_def
        paragraphType_def imageType_def youtubeType_def moreType_def)
  have r: "getReusableBlockTypes (exampleMenu ''recent'' []) =
      [\<lparr> name = ''core/block'', title = codeUnits ''Footer'', icon = ''layout'',
         category = ''reusable-blocks'', keywords_blockType = None, isPrivate = False,
         useOnce = False, initialAttributes = [(''ref'', ''r1'')] \<rparr>]"
    by (simp add: getReusableBlockTypes_def exampleMenu_def)
  have c: "category paragraphType = ''common''" "category imageType = ''common''"
    "category youtubeType = ''embed''" "category moreType = ''layout''"
    by (simp_all add: paragraphType_def imageType_def youtubeType_def moreType_def)
  from getBlocksForTab_partition [OF h, of exampleRegistry] h show ?thesis
    by (simp add: cat r c)
qed

text \<open>
  Claim C3. With an empty search text, the tab \<open>recent\<close> returns exactly the entries
  of the usage record (the prop \<open>recentlyUsedBlocks\<close>, whose entries carry the identifier
  in their field \<open>name\<close>) whose name is the name of some block type of the catalog, in the
  order of the usage record; an entry whose name is not in the catalog is left out.
\<close>

theorem getBlocksForTab_recent:
  "filterValue (state this) = [] \<Longrightarrow>
     getBlocksForTab reg this ''recent'' =
       filter (\<lambda>r. \<exists>b\<in>set (getBlockTypes reg this). name b = name r)
         (recentlyUsedBlocks (props this))"
  by (simp add: getBlocksForTab_def filter_lodash_def find_lodash_None)

theorem getBlocksForTab_recent_witness:
  "filterValue (state (exampleMenu ''recent'' [])) = []
   \<and> recentlyUsedBlocks (props (exampleMenu ''recent'' []))
       = [imageType, calendarType, paragraphType]
   \<and> getBlocksForTab exampleRegistry (exampleMenu ''recent'' []) ''recent''
       = [imageType, paragraphType]"
proof -
  have h: "filterValue (state (exampleMenu ''recent'' [])) = []"
    by (simp add: exampleMenu_def codeUnits_def)
  have u: "recentlyUsedBlocks (props (exampleMenu ''recent'' []))
       = [imageType, calendarType, paragraphType]"
    by (simp add: exampleMenu_def codeUnits_def)
  have ev: "filter (\<lambda>r. \<exists>b\<in>set (getBlockTypes exampleRegistry (exampleMenu ''recent'' [])).
                     name b = name r) [imageType, calendarType, paragraphType]
       = [imageType, paragraphType]"
    by code_simp
  from getBlocksForTab_recent [OF h, of exampleRegistry] h u ev show ?thesis by simp
qed

text \<open>
  Claim C4. When the search text is not empty, \<open>getBlocksForTab\<close> returns the whole
  catalog, the static block types followed by the reusable ones, whatever the tab.
\<close>

theorem getBlocksForTab_search:
  "filterValue (state this) \<noteq> [] \<Longrightarrow>
     getBlocksForTab reg this t = getStaticBlockTypes reg this @ getReusableBlockTypes this"
  by (simp add: getBlocksForTab_def getBlockTypes_def)

theorem getBlocksForTab_search_witness:
  "filterValue (state (exampleMenu ''recent'' ''photo'')) \<noteq> []
   \<and> getBlocksForTab exampleRegistry (exampleMenu ''recent'' ''photo'') ''embeds''
       = getStaticBlockTypes exampleRegistry (exampleMenu ''recent'' ''photo'')
         @ getReusableBlockTypes (exampleMenu ''recent'' ''photo'')
   \<and> length (getBlocksForTab exampleRegistry (exampleMenu ''recent'' ''photo'') ''embeds'') = 5"
proof -
  have h: "filterValue (state (exampleMenu ''recent'' ''photo'')) \<noteq> []"
    by (simp add: exampleMenu_def codeUnits_def)
  have l: "length (getStaticBlockTypes exampleRegistry (exampleMenu ''recent'' ''photo'')
         @ getReusableBlockTypes (exampleMenu ''recent'' ''photo'')) = 5"
    by code_simp
  from getBlocksForTab_search [OF h, of exampleRegistry "''embeds''"] h l show ?thesis by simp
qed

text \<open>
  Claim C10. With an empty search text, a tab that is none of \<open>recent\<close>, \<open>blocks\<close>,
  \<open>embeds\<close> and \<open>saved\<close> leaves the predicate undefined, and filtering with the
  undefined predicate keeps every block type: the result is the whole catalog.
\<close>

theorem getBlocksForTab_unknown:
  "filterValue (state this) = [] \<Longrightarrow>
   t \<notin> {''recent'', ''blocks'', ''embeds'', ''saved''} \<Longrightarrow>
     tabPredicate t = None \<and> getBlocksForTab reg this t = getBlockTypes reg this"
  by (simp add: getBlocksForTab_def filter_lodash_def tabPredicate_def truthyObject_def)

theorem getBlocksForTab_unknown_witness:
  "filterValue (state (exampleMenu ''recent'' [])) = []
   \<and> ''widgets'' \<notin> {''recent'', ''blocks'', ''embeds'', ''saved''}
   \<and> getBlocksForTab exampleRegistry (exampleMenu ''recent'' []) ''widgets''
       = getBlockTypes exampleRegistry (exampleMenu ''recent'' [])
   \<and> length (getBlocksForTab exampleRegistry (exampleMenu ''recent'' []) ''widgets'') = 5"
proof -
  have h: "filterValue (state (exampleMenu ''recent'' [])) = []"
    by (simp add: exampleMenu_def codeUnits_def)
  have t: "''widgets'' \<notin> {''recent'', ''blocks'', ''embeds'', ''saved''}" by simp
  have l: "length (getBlockTypes exampleRegistry (exampleMenu ''recent'' [])) = 5"
    by code_simp
  from getBlocksForTab_unknown [OF h t, of exampleRegistry] h t l show ?thesis by simp
qed

subsection \<open>Sorting\<close>

lemma sortBy_entries_val: "map (\<lambda>(c, i, v). v) (sortBy_entries xs f) = xs"
  by (simp add: sortBy_entries_def case_prod_unfold comp_def)

lemma sortBy_entries_index: "map (\<lambda>(c, i, v). i) (sortBy_entries xs f) = [0..<length xs]"
  by (simp add: sortBy_entries_def case_prod_unfold comp_def)

lemma sortBy_entries_criteria:
  "e \<in> set (sortBy_entries xs f) \<Longrightarrow> fst e = f (snd (snd e))"
  by (auto simp: sortBy_entries_def)

lemma sorted_entries_filter:
  fixes S :: "(int \<times> nat \<times> 'a) list"
  assumes "sorted (map (\<lambda>(c, i, v). (c, i)) S)"
  shows "sorted (map (\<lambda>(c, i, v). i) (filter (\<lambda>e. fst e = k) S))"
proof -
  from assms have "sorted_wrt (\<lambda>a b. (fst a, fst (snd a)) \<le> (fst b, fst (snd b))) S"
    by (simp add: sorted_map case_prod_unfold)
  then have "sorted_wrt (\<lambda>a b. (fst a, fst (snd a)) \<le> (fst b, fst (snd b)))
               (filter (\<lambda>e. fst e = k) S)"
    by (rule sorted_wrt_filter)
  then have "sorted_wrt (\<lambda>a b. fst (snd a) \<le> fst (snd b)) (filter (\<lambda>e. fst e = k) S)"
    by (rule sorted_wrt_mono_rel [rotated]) (auto simp: less_eq_prod_def)
  then show ?thesis by (simp add: sorted_map case_prod_unfold)
qed

lemma sortBy_entries_stable:
  fixes f :: "'a \<Rightarrow> int"
  defines "key \<equiv> (\<lambda>(c :: int, i :: nat, v :: 'a). (c, i))"
  shows "filter (\<lambda>e. fst e = k) (sort_key key (sortBy_entries xs f))
           = filter (\<lambda>e. fst e = k) (sortBy_entries xs f)"
proof -
  let ?E = "sortBy_entries xs f"
  let ?S = "sort_key key ?E"
  let ?ix = "\<lambda>(c :: int, i :: nat, v :: 'a). i"
  have dE: "distinct (map ?ix ?E)" by (simp add: sortBy_entries_index)
  have "mset (map ?ix ?S) = mset (map ?ix ?E)" by simp
  then have dS: "distinct (map ?ix ?S)" using dE by (metis mset_eq_imp_distinct_iff)
  have sE: "sorted (map ?ix ?E)" by (simp add: sortBy_entries_index)
  have sS: "sorted (map key ?S)" by simp
  show ?thesis
  proof (rule map_sorted_distinct_set_unique [where f = ?ix])
    show "inj_on ?ix (set (filter (\<lambda>e. fst e = k) ?S) \<union> set (filter (\<lambda>e. fst e = k) ?E))"
      using dE by (auto simp: distinct_map intro: inj_on_subset)
    show "sorted (map ?ix (filter (\<lambda>e. fst e = k) ?S))"
      using sS unfolding key_def by (rule sorted_entries_filter)
    show "distinct (map ?ix (filter (\<lambda>e. fst e = k) ?S))"
      using dS by (rule distinct_map_filter)
    show "sorted (map ?ix (filter (\<lambda>e. fst e = k) ?E))"
      using sE by (rule sorted_filter)
    show "distinct (map ?ix (filter (\<lambda>e. fst e = k) ?E))"
      using dE by (rule distinct_map_filter)
    show "set (filter (\<lambda>e. fst e = k) ?S) = set (filter (\<lambda>e. fst e = k) ?E)"
      by simp
  qed
qed

lemma sortBy_stable: "filter (\<lambda>x. f x = k) (sortBy xs f) = filter (\<lambda>x. f x = k) xs"
proof -
  let ?key = "\<lambda>(c :: int, i :: nat, v :: 'a). (c, i)"
  let ?val = "\<lambda>(c :: int, i :: nat, v :: 'a). v"
  let ?E = "sortBy_entries xs f"
  let ?S = "sort_key ?key ?E"
  have crit: "\<And>e. e \<in> set ?S \<Longrightarrow> (f (?val e) = k) = (fst e = k)"
    by (auto dest: sortBy_entries_criteria)
  have crit': "\<And>e. e \<in> set ?E \<Longrightarrow> (f (?val e) = k) = (fst e = k)"
    by (auto dest: sortBy_entries_criteria)
  have "filter (\<lambda>x. f x = k) (sortBy xs f) = map ?val (filter (\<lambda>e. f (?val e) = k) ?S)"
    by (simp add: sortBy_def filter_map comp_def)
  also have "filter (\<lambda>e. f (?val e) = k) ?S = filter (\<lambda>e. fst e = k) ?S"
    using crit by (intro filter_cong) auto
  also have "\<dots> = filter (\<lambda>e. fst e = k) ?E" by (rule sortBy_entries_stable)
  also have "\<dots> = filter (\<lambda>e. f (?val e) = k) ?E"
    using crit' by (intro filter_cong) auto
  also have "map ?val \<dots> = filter (\<lambda>x. f x = k) (map ?val ?E)"
    by (simp add: filter_map comp_def)
  finally show ?thesis by (simp add: sortBy_entries_val)
qed

lemma mset_sortBy: "mset (sortBy xs f) = mset xs"
proof -
  have "mset (sortBy xs f) = mset (map (\<lambda>(c, i, v). v) (sortBy_entries xs f))"
    unfolding sortBy_def mset_map by simp
  then show ?thesis by (simp only: sortBy_entries_val)
qed

lemma sorted_sortBy: "sorted (map f (sortBy xs f))"
proof -
  let ?key = "\<lambda>(c :: int, i :: nat, v :: 'a). (c, i)"
  let ?val = "\<lambda>(c :: int, i :: nat, v :: 'a). v"
  let ?S = "sort_key ?key (sortBy_entries xs f)"
  have "sorted (map ?key ?S)" by simp
  then have "sorted_wrt (\<lambda>a b. (fst a, fst (snd a)) \<le> (fst b, fst (snd b))) ?S"
    by (simp add: sorted_map case_prod_unfold)
  then have "sorted_wrt (\<lambda>a b. fst a \<le> fst b) ?S"
    by (rule sorted_wrt_mono_rel [rotated]) (auto simp: less_eq_prod_def)
  then have "sorted (map fst ?S)" by (simp add: sorted_map)
  moreover have "map f (sortBy xs f) = map fst ?S"
    by (auto simp: sortBy_def dest: sortBy_entries_criteria)
  ultimately show ?thesis by simp
qed

lemma sortBy_sort_key: "sortBy xs f = sort_key f xs"
proof (rule sym, rule properties_for_sort_key)
  show "mset (sortBy xs f) = mset xs" by (rule mset_sortBy)
  show "sorted (map f (sortBy xs f))" by (rule sorted_sortBy)
  show "filter (\<lambda>x. f k = f x) (sortBy xs f) = filter (\<lambda>x. f k = f x) xs" for k
    using sortBy_stable [of f "f k" xs] by (simp add: eq_commute)
qed

lemma findIndexFrom_ge: "- 1 \<le> findIndexFrom xs p k"
  by (induction xs arbitrary: k) auto

lemma findIndexFrom_none: "findIndexFrom xs p k = - 1 \<longleftrightarrow> (\<forall>x\<in>set xs. \<not> p x)"
  by (induction xs arbitrary: k) auto

lemma findIndexFrom_some:
  "\<exists>x\<in>set xs. p x \<Longrightarrow>
     \<exists>i < length xs. findIndexFrom xs p k = int (k + i) \<and> p (xs ! i) \<and> (\<forall>j < i. \<not> p (xs ! j))"
proof (induction xs arbitrary: k)
  case Nil
  then show ?case by simp
next
  case (Cons x xs)
  show ?case
  proof (cases "p x")
    case True
    then show ?thesis by (intro exI [of _ 0]) simp
  next
    case False
    with Cons.prems have "\<exists>x\<in>set xs. p x" by simp
    from Cons.IH [OF this, of "Suc k"] obtain i where
      i: "i < length xs" "findIndexFrom xs p (Suc k) = int (Suc k + i)"
         "p (xs ! i)" "\<forall>j < i. \<not> p (xs ! j)" by blast
    have "\<forall>j < Suc i. \<not> p ((x # xs) ! j)"
      using False i(4) by (auto simp: nth_Cons split: nat.splits)
    with False i show ?thesis by (intro exI [of _ "Suc i"]) simp
  qed
qed

lemma getCategoryIndex_unknown:
  "getCategoryIndex reg b = - 1 \<longleftrightarrow> category b \<notin> slug ` set (getCategories reg)"
  unfolding getCategoryIndex_def findIndex_def findIndexFrom_none image_iff by metis

lemma getCategoryIndex_known:
  assumes "category b \<in> slug ` set (getCategories reg)"
  shows "\<exists>i < length (getCategories reg). getCategoryIndex reg b = int i
           \<and> slug (getCategories reg ! i) = category b
           \<and> (\<forall>j < i. slug (getCategories reg ! j) \<noteq> category b)"
proof -
  from assms have "\<exists>c\<in>set (getCategories reg). slug c = category b" by auto
  from findIndexFrom_some [OF this, of 0] show ?thesis
    by (simp add: getCategoryIndex_def findIndex_def)
qed

lemma sorted_split_least:
  fixes f :: "'a \<Rightarrow> int"
  assumes "sorted (map f ys)" and "\<forall>y\<in>set ys. m \<le> f y"
  shows "ys = filter (\<lambda>y. f y = m) ys @ filter (\<lambda>y. f y \<noteq> m) ys"
  using assms
proof (induction ys)
  case Nil
  then show ?case by simp
next
  case (Cons y ys)
  show ?case
  proof (cases "f y = m")
    case True
    with Cons show ?thesis by simp
  next
    case False
    with Cons.prems have "\<forall>z\<in>set ys. f z \<noteq> m" by fastforce
    then have "filter (\<lambda>y. f y = m) ys = []" "filter (\<lambda>y. f y \<noteq> m) ys = ys"
      by (simp_all add: filter_empty_conv)
    with False show ?thesis by simp
  qed
qed

lemma sort_key_least_first:
  fixes f :: "'a \<Rightarrow> int"
  assumes "\<forall>x\<in>set xs. m \<le> f x"
  shows "sort_key f xs = filter (\<lambda>x. f x = m) xs @ sort_key f (filter (\<lambda>x. f x \<noteq> m) xs)"
proof -
  have "sort_key f xs = filter (\<lambda>y. f y = m) (sort_key f xs) @ filter (\<lambda>y. f y \<noteq> m) (sort_key f xs)"
    using assms by (intro sorted_split_least) simp_all
  also have "filter (\<lambda>y. f y = m) (sort_key f xs) = filter (\<lambda>y. f y = m) xs"
    by (rule sort_key_stable)
  also have "filter (\<lambda>y. f y \<noteq> m) (sort_key f xs) = sort_key f (filter (\<lambda>y. f y \<noteq> m) xs)"
    by (rule filter_sort)
  finally show ?thesis .
qed

lemma sortBlocks_unknown_first:
  assumes "\<not> (tab (state this) = ''recent'' \<and> filterValue (state this) = [])"
  shows "sortBlocks reg this bs =
           filter (\<lambda>b. category b \<notin> slug ` set (getCategories reg)) bs
           @ sortBlocks reg this (filter (\<lambda>b. category b \<in> slug ` set (getCategories reg)) bs)"
proof -
  have "\<forall>x\<in>set bs. - 1 \<le> getCategoryIndex reg x"
    by (simp add: getCategoryIndex_def findIndex_def findIndexFrom_ge)
  from sort_key_least_first [OF this]
  have "sort_key (getCategoryIndex reg) bs =
          filter (\<lambda>b. category b \<notin> slug ` set (getCategories reg)) bs
          @ sort_key (getCategoryIndex reg)
              (filter (\<lambda>b. category b \<in> slug ` set (getCategories reg)) bs)"
    by (simp only: getCategoryIndex_unknown not_not)
  moreover from assms have "sortBlocks reg this ys = sort_key (getCategoryIndex reg) ys" for ys
    by (auto simp: sortBlocks_def sortBy_sort_key)
  ultimately show ?thesis by simp
qed

text \<open>
  Claim C8. Sorting is stable: the block types with a given category index, and so the
  block types of a given category, are in the result of \<open>sortBlocks\<close> in the order they
  have in its argument.
\<close>

theorem sortBlocks_stable:
  "filter (\<lambda>b. getCategoryIndex reg b = k) (sortBlocks reg this bs)
     = filter (\<lambda>b. getCategoryIndex reg b = k) bs
   \<and> filter (\<lambda>b. category b = c) (sortBlocks reg this bs) = filter (\<lambda>b. category b = c) bs"
proof -
  have ix: "filter (\<lambda>b. getCategoryIndex reg b = j) (sortBlocks reg this bs)
     = filter (\<lambda>b. getCategoryIndex reg b = j) bs" for j
    by (simp add: sortBlocks_def sortBy_stable)
  define kc where "kc = findIndex (getCategories reg) (\<lambda>x. slug x = c)"
  have eq: "(\<lambda>b. category b = c) = (\<lambda>b. category b = c \<and> getCategoryIndex reg b = kc)"
    by (auto simp: kc_def getCategoryIndex_def)
  have "filter (\<lambda>b. category b = c) ys
          = filter (\<lambda>b. category b = c) (filter (\<lambda>b. getCategoryIndex reg b = kc) ys)" for ys
    by (subst eq) (simp add: conj_commute)
  then have "filter (\<lambda>b. category b = c) (sortBlocks reg this bs)
      = filter (\<lambda>b. category b = c) bs"
    by (metis ix)
  with ix show ?thesis by simp
qed

text \<open>
  Claim C5, as the code has it. If the active tab is \<open>recent\<close> and the search text is
  empty, \<open>sortBlocks\<close> returns its argument unchanged. Otherwise the result is a
  rearrangement of the argument in ascending order of the index of each block type's
  category in \<open>getCategories()\<close>, where a category that is not in that list has the index
  \<open>-1\<close>: the block types of such categories come first, in their input order, before all
  block types of listed categories.
\<close>

theorem sortBlocks_spec:
  "(tab (state this) = ''recent'' \<and> filterValue (state this) = [] \<longrightarrow>
      sortBlocks reg this bs = bs)
   \<and> (\<not> (tab (state this) = ''recent'' \<and> filterValue (state this) = []) \<longrightarrow>
        sorted (map (getCategoryIndex reg) (sortBlocks reg this bs))
        \<and> mset (sortBlocks reg this bs) = mset bs
        \<and> sortBlocks reg this bs =
            filter (\<lambda>b. category b \<notin> slug ` set (getCategories reg)) bs
            @ sortBlocks reg this (filter (\<lambda>b. category b \<in> slug ` set (getCategories reg)) bs))
   \<and> (getCategoryIndex reg b = - 1 \<longleftrightarrow> category b \<notin> slug ` set (getCategories reg))
   \<and> (category b \<in> slug ` set (getCategories reg) \<longrightarrow>
        (\<exists>i < length (getCategories reg). getCategoryIndex reg b = int i
           \<and> slug (getCategories reg ! i) = category b
           \<and> (\<forall>j < i. slug (getCategories reg ! j) \<noteq> category b)))"
proof -
  have "sortBlocks reg this bs = bs"
    if "tab (state this) = ''recent'' \<and> filterValue (state this) = []"
    using that by (simp add: sortBlocks_def)
  moreover have "sorted (map (getCategoryIndex reg) (sortBlocks reg this bs))
        \<and> mset (sortBlocks reg this bs) = mset bs
        \<and> sortBlocks reg this bs =
            filter (\<lambda>b. category b \<notin> slug ` set (getCategories reg)) bs
            @ sortBlocks reg this (filter (\<lambda>b. category b \<in> slug ` set (getCategories reg)) bs)"
    if h: "\<not> (tab (state this) = ''recent'' \<and> filterValue (state this) = [])"
  proof -
    from h have eq: "sortBlocks reg this bs = sortBy bs (getCategoryIndex reg)"
      by (auto simp: sortBlocks_def)
    have "sorted (map (getCategoryIndex reg) (sortBlocks reg this bs))"
      unfolding eq by (rule sorted_sortBy)
    moreover have "mset (sortBlocks reg this bs) = mset bs"
      unfolding eq by (rule mset_sortBy)
    ultimately show ?thesis using sortBlocks_unknown_first [OF h] by blast
  qed
  moreover note getCategoryIndex_unknown [of reg b]
  moreover have "category b \<in> slug ` set (getCategories reg) \<longrightarrow>
        (\<exists>i < length (getCategories reg). getCategoryIndex reg b = int i
           \<and> slug (getCategories reg ! i) = category b
           \<and> (\<forall>j < i. slug (getCategories reg ! j) \<noteq> category b))"
    using getCategoryIndex_known [of b reg] by blast
  ultimately show ?thesis by blast
qed

theorem sortBlocks_spec_witness:
  "tab (state (exampleMenu ''recent'' [])) = ''recent''
   \<and> filterValue (state (exampleMenu ''recent'' [])) = []
   \<and> sortBlocks exampleRegistry (exampleMenu ''recent'' []) [youtubeType, paragraphType]
       = [youtubeType, paragraphType]
   \<and> \<not> (tab (state (exampleMenu ''blocks'' [])) = ''recent''
         \<and> filterValue (state (exampleMenu ''blocks'' [])) = [])
   \<and> sorted (map (getCategoryIndex exampleRegistry)
        (sortBlocks exampleRegistry (exampleMenu ''blocks'' [])
           [youtubeType, calendarType, paragraphType]))
   \<and> sortBlocks exampleRegistry (exampleMenu ''blocks'' [])
        [youtubeType, calendarType, paragraphType] = [calendarType, paragraphType, youtubeType]
   \<and> category youtubeType \<in> slug ` set (getCategories exampleRegistry)
   \<and> getCategoryIndex exampleRegistry youtubeType = 2"
proof -
  have h1: "tab (state (exampleMenu ''recent'' [])) = ''recent''
      \<and> filterValue (state (exampleMenu ''recent'' [])) = []"
    by (simp add: exampleMenu_def codeUnits_def)
  have h2: "\<not> (tab (state (exampleMenu ''blocks'' [])) = ''recent''
         \<and> filterValue (state (exampleMenu ''blocks'' [])) = [])"
    by (simp add: exampleMenu_def codeUnits_def)
  have h3: "category youtubeType \<in> slug ` set (getCategories exampleRegistry)"
    by (simp add: youtubeType_def exampleRegistry_def)
  have ev: "sortBlocks exampleRegistry (exampleMenu ''blocks'' [])
        [youtubeType, calendarType, paragraphType] = [calendarType, paragraphType, youtubeType]"
    by code_simp
  have ix: "getCategoryIndex exampleRegistry youtubeType = 2"
    by code_simp
  from sortBlocks_spec [of "exampleMenu ''recent'' []" exampleRegistry
      "[youtubeType, paragraphType]" youtubeType] h1
  have a: "sortBlocks exampleRegistry (exampleMenu ''recent'' []) [youtubeType, paragraphType]
       = [youtubeType, paragraphType]"
    by blast
  from sortBlocks_spec [of "exampleMenu ''blocks'' []" exampleRegistry
      "[youtubeType, calendarType, paragraphType]" youtubeType] h2
  have b: "sorted (map (getCategoryIndex exampleRegistry)
        (sortBlocks exampleRegistry (exampleMenu ''blocks'' [])
           [youtubeType, calendarType, paragraphType]))"
    by blast
  from h1 h2 h3 ev ix a b show ?thesis by blast
qed

text \<open>
  Claim C5, as it is written, says that a block type whose category is not in the
  category list sorts last. In the example, the category of \<open>calendarType\<close> is not in the
  list and that of \<open>paragraphType\<close> is; sorting the two puts \<open>calendarType\<close> first.
\<close>

theorem sortBlocks_unknown_last_counterexample:
  "tab (state (exampleMenu ''blocks'' [])) \<noteq> ''recent''
   \<and> category calendarType \<notin> slug ` set (getCategories exampleRegistry)
   \<and> category paragraphType \<in> slug ` set (getCategories exampleRegistry)
   \<and> sortBlocks exampleRegistry (exampleMenu ''blocks'' []) [paragraphType, calendarType]
       = [calendarType, paragraphType]
   \<and> calendarType \<noteq> paragraphType"
proof -
  have "tab (state (exampleMenu ''blocks'' [])) \<noteq> ''recent''"
    by (simp add: exampleMenu_def codeUnits_def)
  moreover have "category calendarType \<notin> slug ` set (getCategories exampleRegistry)"
    by (simp add: calendarType_def exampleRegistry_def)
  moreover have "category paragraphType \<in> slug ` set (getCategories exampleRegistry)"
    by (simp add: paragraphType_def exampleRegistry_def)
  moreover have "sortBlocks exampleRegistry (exampleMenu ''blocks'' [])
      [paragraphType, calendarType] = [calendarType, paragraphType]"
    by code_simp
  moreover have "calendarType \<noteq> paragraphType"
    by (simp add: calendarType_def paragraphType_def)
  ultimately show ?thesis by blast
qed

subsection \<open>Grouping\<close>

lemma groupBy_assign_keys:
  "map fst (groupBy_assign acc k v) = (if k \<in> fst ` set acc then map fst acc else map fst acc @ [k])"
proof (induction acc)
  case Nil
  then show ?case by simp
next
  case (Cons a acc)
  obtain k' g where a: "a = (k', g)" by (cases a)
  show ?case
  proof (cases "k' = k")
    case True
    with a show ?thesis by simp
  next
    case False
    with a Cons.IH show ?thesis by simp
  qed
qed

lemma groupBy_assign_mset:
  "mset (concat (map snd (groupBy_assign acc k v))) = mset (concat (map snd acc)) + {#v#}"
  by (induction acc) auto

lemma groupBy_assign_mem:
  "distinct (map fst acc) \<Longrightarrow> (k', g) \<in> set (groupBy_assign acc k v) \<Longrightarrow>
     (k' = k \<and> (g = [v] \<and> k \<notin> fst ` set acc \<or> (\<exists>g0. (k, g0) \<in> set acc \<and> g = g0 @ [v])))
     \<or> (k' \<noteq> k \<and> (k', g) \<in> set acc)"
proof (induction acc)
  case Nil
  then show ?case by simp
next
  case (Cons a acc)
  obtain ka ga where a: "a = (ka, ga)" by (cases a)
  show ?case
  proof (cases "ka = k")
    case True
    with a Cons.prems have "k \<notin> fst ` set acc"
      and "(k', g) = (k, ga @ [v]) \<or> (k', g) \<in> set acc" by auto
    then show ?thesis
    proof (elim disjE)
      assume "(k', g) = (k, ga @ [v])"
      moreover have "(k, ga) \<in> set (a # acc)" using a True by simp
      ultimately show ?thesis by blast
    next
      assume mem: "(k', g) \<in> set acc"
      then have "k' \<in> fst ` set acc" by (rule rev_image_eqI) simp
      with \<open>k \<notin> fst ` set acc\<close> have "k' \<noteq> k" by blast
      moreover from mem have "(k', g) \<in> set (a # acc)" by simp
      ultimately show ?thesis by blast
    qed
  next
    case False
    from Cons.prems a have dist: "distinct (map fst acc)" by simp
    from False a Cons.prems have "(k', g) = (ka, ga) \<or> (k', g) \<in> set (groupBy_assign acc k v)"
      by simp
    then show ?thesis
    proof
      assume "(k', g) = (ka, ga)"
      with a False show ?thesis by simp
    next
      assume "(k', g) \<in> set (groupBy_assign acc k v)"
      from Cons.IH [OF dist this] consider
        (new) "k' = k" "g = [v]" "k \<notin> fst ` set acc"
        | (push) g0 where "k' = k" "(k, g0) \<in> set acc" "g = g0 @ [v]"
        | (other) "k' \<noteq> k" "(k', g) \<in> set acc" by blast
      then show ?thesis
      proof cases
        case new
        moreover from new(3) a False have "k \<notin> fst ` set (a # acc)" by simp
        ultimately show ?thesis by blast
      next
        case push
        moreover from push(2) have "(k, g0) \<in> set (a # acc)" by simp
        ultimately show ?thesis by blast
      next
        case other
        moreover from other(2) have "(k', g) \<in> set (a # acc)" by simp
        ultimately show ?thesis by blast
      qed
    qed
  qed
qed

lemma grouped_assign:
  assumes "grouped f acc ps"
  shows "grouped f (groupBy_assign acc (f v) v) (ps @ [v])"
proof -
  from assms have keys: "fst ` set acc = f ` set ps" and dist: "distinct (map fst acc)"
    and all: "\<forall>(k, g)\<in>set acc. g = filter (\<lambda>x. f x = k) ps"
    unfolding grouped_def by blast+
  have grp: "g = filter (\<lambda>x. f x = k) ps" if "(k, g) \<in> set acc" for k g
    using all that by blast
  have "g = filter (\<lambda>x. f x = k) (ps @ [v])" if "(k, g) \<in> set (groupBy_assign acc (f v) v)" for k g
  proof -
    from groupBy_assign_mem [OF dist that] consider
      (new) "k = f v" "g = [v]" "f v \<notin> fst ` set acc"
      | (push) g0 where "k = f v" "(f v, g0) \<in> set acc" "g = g0 @ [v]"
      | (other) "k \<noteq> f v" "(k, g) \<in> set acc" by blast
    then show ?thesis
    proof cases
      case new
      with keys have "\<forall>x\<in>set ps. f x \<noteq> f v" by (metis imageI)
      then have "filter (\<lambda>x. f x = f v) ps = []" by (simp add: filter_empty_conv)
      with new show ?thesis by simp
    next
      case push
      with grp [of "f v" g0] show ?thesis by simp
    next
      case other
      with grp [of k g] show ?thesis by auto
    qed
  qed
  moreover have "fst ` set (groupBy_assign acc (f v) v) = f ` set (ps @ [v])"
  proof -
    have "fst ` set (groupBy_assign acc (f v) v) = set (map fst (groupBy_assign acc (f v) v))"
      by simp
    also have "\<dots> = insert (f v) (fst ` set acc)"
      unfolding groupBy_assign_keys by auto
    finally show ?thesis using keys by simp
  qed
  moreover have "distinct (map fst (groupBy_assign acc (f v) v))"
    unfolding groupBy_assign_keys using dist by auto
  ultimately show ?thesis unfolding grouped_def by blast
qed

lemma grouped_foldl:
  "grouped f acc ps \<Longrightarrow>
     grouped f (foldl (\<lambda>result v. groupBy_assign result (f v) v) acc xs) (ps @ xs)"
proof (induction xs arbitrary: acc ps)
  case Nil
  then show ?case by simp
next
  case (Cons x xs)
  from Cons.IH [OF grouped_assign [OF Cons.prems, of x]] show ?case by simp
qed

lemma grouped_groupBy: "grouped f (groupBy xs f) xs"
proof -
  have "grouped f [] []" by (simp add: grouped_def)
  from grouped_foldl [OF this, of xs] show ?thesis by (simp add: groupBy_def)
qed

lemma mset_foldl_groupBy:
  "mset (concat (map snd (foldl (\<lambda>result v. groupBy_assign result (f v) v) acc xs)))
     = mset (concat (map snd acc)) + mset xs"
  by (induction xs arbitrary: acc) (simp_all add: groupBy_assign_mset)

lemma mset_groupBy: "mset (concat (map snd (groupBy xs f))) = mset xs"
  by (simp add: groupBy_def mset_foldl_groupBy)

text \<open>
  Claim C9. For every list of block types, the groups of \<open>groupByCategory\<close>,
  concatenated, hold the block types of the list with their multiplicities; there is one
  group for each category that occurs, and the group of a category is the list of the block
  types of that category in their input order. (The statement does not depend on the order
  in which the keys of the result are enumerated.)
\<close>

theorem groupByCategory_spec:
  "mset (concat (map snd (groupByCategory bs))) = mset bs
   \<and> distinct (map fst (groupByCategory bs))
   \<and> fst ` set (groupByCategory bs) = category ` set bs
   \<and> (\<forall>(c, g)\<in>set (groupByCategory bs). g = filter (\<lambda>b. category b = c) bs)"
  using grouped_groupBy [of category bs] mset_groupBy [of bs category]
  unfolding groupByCategory_def grouped_def by blast

theorem groupByCategory_spec_witness:
  "(''common'', [paragraphType, imageType])
     \<in> set (groupByCategory [paragraphType, youtubeType, imageType])
   \<and> [paragraphType, imageType]
       = filter (\<lambda>b. category b = ''common'') [paragraphType, youtubeType, imageType]
   \<and> groupByCategory [paragraphType, youtubeType, imageType]
       = [(''common'', [paragraphType, imageType]), (''embed'', [youtubeType])]"
proof -
  have ev: "groupByCategory [paragraphType, youtubeType, imageType]
       = [(''common'', [paragraphType, imageType]), (''embed'', [youtubeType])]"
    by code_simp
  then have mem: "(''common'', [paragraphType, imageType])
     \<in> set (groupByCategory [paragraphType, youtubeType, imageType])"
    by simp
  from groupByCategory_spec [of "[paragraphType, youtubeType, imageType]"] mem
  have "[paragraphType, imageType]
       = filter (\<lambda>b. category b = ''common'') [paragraphType, youtubeType, imageType]"
    by blast
  with ev mem show ?thesis by blast
qed

end
